theory Spec2Isabelle
  imports Main
begin

section \<open>JavaScript values used by the components\<close>

text \<open>
  The components compute with JavaScript numbers. Every number that occurs is an index
  into the five-element deck, a deck length, or one of the literals \<open>-1\<close>, \<open>0\<close>, \<open>1\<close>;
  such values are integers far below \<open>2 ^ 53\<close>, where the floating-point operations
  \<open>+\<close>, \<open>-\<close> and \<open>%\<close> are exact. A number is therefore an integer or \<open>NaN\<close>, the
  result of \<open>%\<close> with a zero divisor. The negative zero that \<open>%\<close> can return is
  identified with zero: the comparisons and the array access used here do not tell
  them apart.
\<close>

datatype jsnum = Num int | NaN

fun js_add :: "jsnum \<Rightarrow> jsnum \<Rightarrow> jsnum" where
  "js_add (Num a) (Num b) = Num (a + b)"
| "js_add _ _ = NaN"

fun js_sub :: "jsnum \<Rightarrow> jsnum \<Rightarrow> jsnum" where
  "js_sub (Num a) (Num b) = Num (a - b)"
| "js_sub _ _ = NaN"

text \<open>The operator \<open>%\<close>: the remainder of the truncating division, with the sign of the
  dividend; \<open>NaN\<close> when the divisor is zero.\<close>

fun js_rem :: "jsnum \<Rightarrow> jsnum \<Rightarrow> jsnum" where
  "js_rem (Num a) (Num b) = (if b = 0 then NaN else Num (sgn a * (\<bar>a\<bar> mod \<bar>b\<bar>)))"
| "js_rem _ _ = NaN"

text \<open>The operators \<open>>\<close>, \<open><\<close>, \<open>!==\<close> and \<open>===\<close>: every comparison with \<open>NaN\<close> is false, so
  \<open>NaN !== NaN\<close> holds.\<close>

fun js_gt :: "jsnum \<Rightarrow> jsnum \<Rightarrow> bool" where
  "js_gt (Num a) (Num b) = (a > b)"
| "js_gt _ _ = False"

fun js_lt :: "jsnum \<Rightarrow> jsnum \<Rightarrow> bool" where
  "js_lt (Num a) (Num b) = (a < b)"
| "js_lt _ _ = False"

fun js_strict_neq :: "jsnum \<Rightarrow> jsnum \<Rightarrow> bool" where
  "js_strict_neq (Num a) (Num b) = (a \<noteq> b)"
| "js_strict_neq _ _ = True"


text \<open>\<open>xs.length\<close> and \<open>xs[index]\<close>; the latter is \<open>undefined\<close> (here \<open>None\<close>) outside
  the array.\<close>

definition js_length :: "'a list \<Rightarrow> jsnum" where
  "js_length xs = Num (int (length xs))"

fun array_get :: "'a list \<Rightarrow> jsnum \<Rightarrow> 'a option" where
  "array_get xs (Num i) = (if 0 \<le> i \<and> i < int (length xs) then Some (xs ! nat i) else None)"
| "array_get xs NaN = None"


section \<open>The card deck of \<open>InteractiveCards\<close>\<close>

datatype card_type = Profile | About | Projects | Certificates | TechStack | Contact

datatype icon = User | FolderGit2 | Award | Layers

record CardDataItem =
  id' :: int
  title :: string
  content :: string
  type' :: card_type
  link :: string
  icon :: "icon option"

definition cardData :: "CardDataItem list" where
  "cardData =
    [\<lparr>id' = 1, title = ''Profile'', content = '''', type' = Profile, link = ''/'',
      icon = Some User\<rparr>,
     \<lparr>id' = 2, title = ''About Me'', content = ''Learn more about my background and skills.'',
      type' = About, link = ''/about'', icon = Some User\<rparr>,
     \<lparr>id' = 3, title = ''Projects'', content = ''Explore the projects I have worked on.'',
      type' = Projects, link = ''/projects'', icon = Some FolderGit2\<rparr>,
     \<lparr>id' = 4, title = ''Certificates'',
      content = ''View my certifications and qualifications.'',
      type' = Certificates, link = ''/certificates'', icon = Some Award\<rparr>,
     \<lparr>id' = 5, title = ''Tech Stack'', content = ''Discover the technologies I use.'',
      type' = TechStack, link = ''/tech-stack'', icon = Some Layers\<rparr>]"

section \<open>The carousel state and its handlers\<close>

text \<open>
  The two \<open>useState\<close> cells of the component. \<open>direction\<close> is only ever set to one of
  the literals \<open>1\<close> (next), \<open>-1\<close> (previous) and \<open>0\<close> (initial). Every handler below
  takes the deck as its first argument, so that the deck length can vary; the component
  itself closes over \<open>cardData\<close>.
\<close>

record CarouselState =
  activeIndex :: jsnum
  direction :: int

definition initialState :: CarouselState where
  "initialState = \<lparr>activeIndex = Num 0, direction = 0\<rparr>"

text \<open>\<open>handleNavigation\<close>: both setters read the \<open>activeIndex\<close> of the current render.\<close>

definition handleNavigation :: "CarouselState \<Rightarrow> jsnum \<Rightarrow> CarouselState" where
  "handleNavigation s newIndex =
     \<lparr>activeIndex = newIndex,
      direction = (if js_gt newIndex (activeIndex s) then 1
                   else (if js_lt newIndex (activeIndex s) then - 1 else 0))\<rparr>"

definition goToNext :: "CardDataItem list \<Rightarrow> CarouselState \<Rightarrow> CarouselState" where
  "goToNext cards s =
     (let nextIndex = js_rem (js_add (activeIndex s) (Num 1)) (js_length cards)
      in handleNavigation s nextIndex)"

definition goToPrev :: "CardDataItem list \<Rightarrow> CarouselState \<Rightarrow> CarouselState" where
  "goToPrev cards s =
     (let prevIndex =
        js_rem (js_add (js_sub (activeIndex s) (Num 1)) (js_length cards)) (js_length cards)
      in handleNavigation s prevIndex)"

definition prevIndex :: "CardDataItem list \<Rightarrow> CarouselState \<Rightarrow> jsnum" where
  "prevIndex cards s =
     js_rem (js_add (js_sub (activeIndex s) (Num 1)) (js_length cards)) (js_length cards)"

definition nextIndex :: "CardDataItem list \<Rightarrow> CarouselState \<Rightarrow> jsnum" where
  "nextIndex cards s = js_rem (js_add (activeIndex s) (Num 1)) (js_length cards)"

text \<open>The arrow buttons of the desktop layout, and a run of clicks on them, each click
  handled in the render that follows the previous one.\<close>

datatype arrow = ArrowLeft | ArrowRight

fun arrow_onClick :: "CardDataItem list \<Rightarrow> CarouselState \<Rightarrow> arrow \<Rightarrow> CarouselState" where
  "arrow_onClick cards s ArrowLeft = goToPrev cards s"
| "arrow_onClick cards s ArrowRight = goToNext cards s"

fun arrow_clicks :: "CardDataItem list \<Rightarrow> CarouselState \<Rightarrow> arrow list \<Rightarrow> CarouselState" where
  "arrow_clicks cards s [] = s"
| "arrow_clicks cards s (a # as) = arrow_clicks cards (arrow_onClick cards s a) as"

text \<open>The state invariant of the specification: \<open>activeIndex\<close> is an index of the deck.\<close>

fun valid_index :: "CardDataItem list \<Rightarrow> jsnum \<Rightarrow> bool" where
  "valid_index cards (Num i) = (0 \<le> i \<and> i < int (length cards))"
| "valid_index cards NaN = False"

section \<open>Rendering and clicks on cards\<close>

subsection \<open>Desktop layout\<close>







text \<open>
  The \<open>onClick\<close> of a desktop card, with the \<open>index\<close> and \<open>card\<close> of its closure. The
  result is the new state together with the paths passed to \<open>navigate\<close>, in order.
\<close>

definition desktop_onClick :: "CarouselState \<Rightarrow> jsnum \<Rightarrow> CardDataItem \<Rightarrow> CarouselState \<times> string list" where
  "desktop_onClick s i c =
     (if js_strict_neq i (activeIndex s) then (handleNavigation s i, [])
      else (if type' c \<noteq> Profile then (s, [link c]) else (s, [])))"












subsection \<open>Mobile layout\<close>

text \<open>
  The mobile layout maps the whole deck, \<open>cardData.map((card, index) => ...)\<close>, and the
  \<open>onClick\<close> of every card is \<open>() => navigate(card.link)\<close>. A tap on the item with index
  \<open>k\<close> runs the handler of that item, if the strip has one.
\<close>

definition mobile_cards :: "CardDataItem list \<Rightarrow> (jsnum \<times> CardDataItem) list" where
  "mobile_cards cards = zip (map (\<lambda>n. Num (int n)) [0..<length cards]) cards"

definition mobile_onClick :: "CarouselState \<Rightarrow> CardDataItem \<Rightarrow> CarouselState \<times> string list" where
  "mobile_onClick s c = (s, [link c])"

definition mobile_tap :: "CardDataItem list \<Rightarrow> CarouselState \<Rightarrow> jsnum \<Rightarrow> (CarouselState \<times> string list) option" where
  "mobile_tap cards s k = map_option (mobile_onClick s) (map_of (mobile_cards cards) k)"

section \<open>The contact form\<close>

text \<open>
  \<open>formData\<close> is a JavaScript object, a map from property names to strings:
  \<open>handleChange\<close> writes the property named by the input element. The calls that
  \<open>handleSubmit\<close> makes on its environment are recorded as a list of effects; these
  four are all the calls it contains.
\<close>

type_synonym FormData = "string \<rightharpoonup> string"

definition emptyFormData :: FormData where
  "emptyFormData = [''name'' \<mapsto> '''', ''email'' \<mapsto> '''', ''message'' \<mapsto> '''']"

record ContactForm =
  formData :: FormData
  isSubmitting :: bool

definition initialContactForm :: ContactForm where
  "initialContactForm = \<lparr>formData = emptyFormData, isSubmitting = False\<rparr>"

record ToastOptions =
  position' :: string
  autoClose :: nat
  hideProgressBar :: bool
  closeOnClick :: bool
  pauseOnHover :: bool
  draggable :: bool
  theme :: string

datatype effect =
    PreventDefault
  | SetTimeout nat
  | ConsoleLog string FormData
  | ToastSuccess string ToastOptions

definition handleChange :: "ContactForm \<Rightarrow> string \<Rightarrow> string \<Rightarrow> ContactForm" where
  "handleChange st name' value' = st\<lparr>formData := (formData st)(name' \<mapsto> value')\<rparr>"

text \<open>
  \<open>handleSubmit\<close> is an \<open>async\<close> function with one \<open>await\<close>. The part before the
  \<open>await\<close> runs at the submit event; the part after it runs when the timer of 1000 ms
  resolves the promise, on the state of that moment, and logs the \<open>formData\<close> of the
  render in which the handler was created.
\<close>

definition handleSubmit_begin :: "ContactForm \<Rightarrow> ContactForm \<times> effect list" where
  "handleSubmit_begin st = (st\<lparr>isSubmitting := True\<rparr>, [PreventDefault, SetTimeout 1000])"

definition successOptions :: ToastOptions where
  "successOptions =
     \<lparr>position' = ''bottom-right'', autoClose = 3000, hideProgressBar = False,
      closeOnClick = True, pauseOnHover = True, draggable = True, theme = ''dark''\<rparr>"

definition handleSubmit_resume :: "FormData \<Rightarrow> ContactForm \<Rightarrow> ContactForm \<times> effect list" where
  "handleSubmit_resume submitted st =
     (st\<lparr>formData := emptyFormData, isSubmitting := False\<rparr>,
      [ConsoleLog ''Form Data Submitted:'' submitted,
       ToastSuccess ''Message sent successfully!'' successOptions])"

text \<open>A whole submission: the submit event, any edits of the fields made while the
  timer runs, and the continuation.\<close>

fun handleChanges :: "ContactForm \<Rightarrow> (string \<times> string) list \<Rightarrow> ContactForm" where
  "handleChanges st [] = st"
| "handleChanges st ((n, v) # es) = handleChanges (handleChange st n v) es"

definition handleSubmit :: "ContactForm \<Rightarrow> (string \<times> string) list \<Rightarrow> ContactForm \<times> effect list" where
  "handleSubmit st edits =
     (let (st1, effects1) = handleSubmit_begin st;
          st2 = handleChanges st1 edits;
          (st3, effects2) = handleSubmit_resume (formData st) st2
      in (st3, effects1 @ effects2))"

fun is_toast :: "effect \<Rightarrow> bool" where
  "is_toast (ToastSuccess _ _) = True"
| "is_toast _ = False"

section \<open>The custom cursor\<close>

text \<open>
  The part of the document that the effect of \<open>CustomCursor\<close> touches: the event
  listeners registered on \<open>document\<close> and on \<open>document.body\<close>, and
  \<open>document.body.style.cursor\<close>. Everything else the document holds is the extension
  part of the record. A listener is identified by its target, its event type and its
  callback; the three callbacks are closures created by one run of the effect, so a
  callback is named by the run and the function.
\<close>

datatype event_target = Document | DocumentBody

datatype callback = handleMouseMove | handleMouseEnter | handleMouseLeave

type_synonym listener = "event_target \<times> string \<times> nat \<times> callback"

record dom =
  listeners :: "listener list"
  body_style_cursor :: string

text \<open>\<open>addEventListener\<close> appends the listener unless an identical one is registered;
  \<open>removeEventListener\<close> removes it.\<close>

definition addEventListener :: "event_target \<Rightarrow> string \<Rightarrow> nat \<times> callback \<Rightarrow> 'a dom_scheme \<Rightarrow> 'a dom_scheme" where
  "addEventListener t ty cb d =
     (if (t, ty, cb) \<in> set (listeners d) then d
      else d\<lparr>listeners := listeners d @ [(t, ty, cb)]\<rparr>)"

definition removeEventListener :: "event_target \<Rightarrow> string \<Rightarrow> nat \<times> callback \<Rightarrow> 'a dom_scheme \<Rightarrow> 'a dom_scheme" where
  "removeEventListener t ty cb d = d\<lparr>listeners := removeAll (t, ty, cb) (listeners d)\<rparr>"

text \<open>The body of the effect, run at mount, and the cleanup it returns, run at unmount.\<close>

definition useEffect_mount :: "nat \<Rightarrow> 'a dom_scheme \<Rightarrow> 'a dom_scheme" where
  "useEffect_mount run d =
     (let d1 = addEventListener Document ''mousemove'' (run, handleMouseMove) d;
          d2 = addEventListener DocumentBody ''mouseenter'' (run, handleMouseEnter) d1;
          d3 = addEventListener DocumentBody ''mouseleave'' (run, handleMouseLeave) d2
      in d3\<lparr>body_style_cursor := ''none''\<rparr>)"

definition useEffect_cleanup :: "nat \<Rightarrow> 'a dom_scheme \<Rightarrow> 'a dom_scheme" where
  "useEffect_cleanup run d =
     (let d1 = removeEventListener Document ''mousemove'' (run, handleMouseMove) d;
          d2 = removeEventListener DocumentBody ''mouseenter'' (run, handleMouseEnter) d1;
          d3 = removeEventListener DocumentBody ''mouseleave'' (run, handleMouseLeave) d2
      in d3\<lparr>body_style_cursor := ''auto''\<rparr>)"

definition own_listeners :: "nat \<Rightarrow> listener list" where
  "own_listeners run =
     [(Document, ''mousemove'', run, handleMouseMove),
      (DocumentBody, ''mouseenter'', run, handleMouseEnter),
      (DocumentBody, ''mouseleave'', run, handleMouseLeave)]"

text \<open>The three callbacks write the state of the component only.\<close>

record CursorState =
  position :: "int \<times> int"
  isPointer :: bool
  isVisible :: bool

definition cursor_handleMouseMove :: "int \<Rightarrow> int \<Rightarrow> bool \<Rightarrow> CursorState \<Rightarrow> CursorState" where
  "cursor_handleMouseMove clientX clientY over_interactive c =
     c\<lparr>position := (clientX, clientY), isPointer := over_interactive\<rparr>"

definition cursor_handleMouseEnter :: "CursorState \<Rightarrow> CursorState" where
  "cursor_handleMouseEnter c = c\<lparr>isVisible := True\<rparr>"

definition cursor_handleMouseLeave :: "CursorState \<Rightarrow> CursorState" where
  "cursor_handleMouseLeave c = c\<lparr>isVisible := False\<rparr>"

section \<open>Index arithmetic\<close>

text \<open>On a non-negative dividend and a positive divisor, \<open>%\<close> is the modulus.\<close>

lemma js_rem_nonneg: "0 \<le> a \<Longrightarrow> 0 < b \<Longrightarrow> js_rem (Num a) (Num b) = Num (a mod b)"
  by (cases "a = 0") (simp_all add: sgn_if)

lemma valid_indexE:
  assumes "valid_index cards n"
  obtains i where "n = Num i" "0 \<le> i" "i < int (length cards)"
  using assms by (cases n) auto

lemma nextIndex_eq:
  assumes "activeIndex s = Num i" "0 \<le> i" "i < int (length cards)"
  shows "nextIndex cards s = Num ((i + 1) mod int (length cards))"
proof -
  from assms have "0 \<le> i + 1" "0 < int (length cards)" by linarith+
  then have "js_rem (Num (i + 1)) (Num (int (length cards))) = Num ((i + 1) mod int (length cards))"
    by (rule js_rem_nonneg)
  with assms(1) show ?thesis by (simp add: nextIndex_def js_length_def)
qed

lemma prevIndex_eq:
  assumes "activeIndex s = Num i" "0 \<le> i" "i < int (length cards)"
  shows "prevIndex cards s = Num ((i - 1 + int (length cards)) mod int (length cards))"
proof -
  from assms have "0 \<le> i - 1 + int (length cards)" "0 < int (length cards)" by linarith+
  then have "js_rem (Num (i - 1 + int (length cards))) (Num (int (length cards)))
      = Num ((i - 1 + int (length cards)) mod int (length cards))"
    by (rule js_rem_nonneg)
  with assms(1) show ?thesis by (simp add: prevIndex_def js_length_def)
qed

lemma next_mod_cases:
  assumes "0 \<le> i" "i < (n::int)"
  shows "(i + 1) mod n = (if i + 1 = n then 0 else i + 1)"
  using assms by simp

lemma prev_mod_cases:
  assumes "0 \<le> i" "i < (n::int)"
  shows "(i - 1 + n) mod n = (if i = 0 then n - 1 else i - 1)"
proof (cases "i = 0")
  case True
  have "(n - 1) mod n = n - 1" using assms by (intro mod_pos_pos_trivial) linarith+
  with True show ?thesis by simp
next
  case False
  with assms have "(i - 1) mod n = i - 1" by (intro mod_pos_pos_trivial) linarith+
  with False show ?thesis by simp
qed

lemma goToNext_eq: "goToNext cards s = handleNavigation s (nextIndex cards s)"
  by (simp add: goToNext_def nextIndex_def)

lemma goToPrev_eq: "goToPrev cards s = handleNavigation s (prevIndex cards s)"
  by (simp add: goToPrev_def prevIndex_def)

lemma activeIndex_handleNavigation: "activeIndex (handleNavigation s n) = n"
  by (simp add: handleNavigation_def)

lemma valid_nextIndex:
  assumes "valid_index cards (activeIndex s)"
  shows "valid_index cards (nextIndex cards s)"
proof -
  from assms obtain i where i: "activeIndex s = Num i" "0 \<le> i" "i < int (length cards)"
    by (rule valid_indexE)
  then have "0 < int (length cards)" by linarith
  with i show ?thesis by (simp add: nextIndex_eq)
qed

lemma valid_prevIndex:
  assumes "valid_index cards (activeIndex s)"
  shows "valid_index cards (prevIndex cards s)"
proof -
  from assms obtain i where i: "activeIndex s = Num i" "0 \<le> i" "i < int (length cards)"
    by (rule valid_indexE)
  then have "0 < int (length cards)" by linarith
  with i show ?thesis by (simp add: prevIndex_eq)
qed

lemma valid_arrow_onClick:
  "valid_index cards (activeIndex s) \<Longrightarrow> valid_index cards (activeIndex (arrow_onClick cards s a))"
  by (cases a)
    (simp_all add: goToNext_eq goToPrev_eq activeIndex_handleNavigation valid_nextIndex
      valid_prevIndex)

lemma valid_arrow_clicks:
  "valid_index cards (activeIndex s) \<Longrightarrow> valid_index cards (activeIndex (arrow_clicks cards s as))"
  by (induction as arbitrary: s) (simp_all add: valid_arrow_onClick)

section \<open>Properties of the carousel\<close>

text \<open>
  Claim C1. From the initial state \<open>activeIndex = 0\<close>, for every deck of length at
  least one and every sequence of clicks on the two arrow buttons (\<open>goToNext\<close>,
  \<open>goToPrev\<close>), \<open>activeIndex\<close> is a number \<open>i\<close> with \<open>0 \<le> i < N\<close>: it indexes a card
  of the deck.
\<close>

theorem activeIndex_in_range:
  assumes "1 \<le> length cards"
  shows "\<exists>i. activeIndex (arrow_clicks cards initialState as) = Num i
           \<and> 0 \<le> i \<and> i < int (length cards)"
proof -
  from assms have "valid_index cards (activeIndex initialState)"
    by (cases cards) (simp_all add: initialState_def)
  then have "valid_index cards (activeIndex (arrow_clicks cards initialState as))"
    by (rule valid_arrow_clicks)
  then show ?thesis by (rule valid_indexE) blast
qed

theorem activeIndex_in_range_witness:
  "1 \<le> length cardData
 \<and> (\<exists>i. activeIndex (arrow_clicks cardData initialState [ArrowLeft, ArrowLeft, ArrowRight]) = Num i
        \<and> 0 \<le> i \<and> i < int (length cardData))"
proof -
  have h: "1 \<le> length cardData" by (simp add: cardData_def)
  show ?thesis
    using h activeIndex_in_range [OF h, of "[ArrowLeft, ArrowLeft, ArrowRight]"] by simp
qed

text \<open>
  Claim C2. A click on the centre card, the card whose index is \<open>activeIndex\<close>, changes
  neither \<open>activeIndex\<close> nor \<open>direction\<close>; it calls \<open>navigate\<close> not at all when the
  card is the profile card, and exactly once, with the link of the card, otherwise.
\<close>

theorem center_click:
  assumes "array_get cards (activeIndex s) = Some c"
  shows "desktop_onClick s (activeIndex s) c = (s, if type' c = Profile then [] else [link c])"
proof -
  from assms obtain i where "activeIndex s = Num i" by (cases "activeIndex s") auto
  then show ?thesis by (simp add: desktop_onClick_def)
qed

theorem center_click_witness:
  "array_get cardData (activeIndex initialState) = Some (cardData ! 0)
 \<and> desktop_onClick initialState (activeIndex initialState) (cardData ! 0) = (initialState, [])
 \<and> array_get cardData (activeIndex \<lparr>activeIndex = Num 1, direction = 1\<rparr>) = Some (cardData ! 1)
 \<and> desktop_onClick \<lparr>activeIndex = Num 1, direction = 1\<rparr>
        (activeIndex \<lparr>activeIndex = Num 1, direction = 1\<rparr>) (cardData ! 1)
      = (\<lparr>activeIndex = Num 1, direction = 1\<rparr>, [''/about''])"
proof -
  let ?s1 = "\<lparr>activeIndex = Num 1, direction = 1\<rparr>"
  have h0: "array_get cardData (activeIndex initialState) = Some (cardData ! 0)"
    by (simp add: initialState_def cardData_def)
  have h1: "array_get cardData (activeIndex ?s1) = Some (cardData ! 1)"
    by (simp add: cardData_def)
  have t0: "type' (cardData ! 0) = Profile" by (simp add: cardData_def)
  have t1: "type' (cardData ! 1) \<noteq> Profile" "link (cardData ! 1) = ''/about''"
    by (simp_all add: cardData_def)
  from center_click [OF h0] t0
  have c0: "desktop_onClick initialState (activeIndex initialState) (cardData ! 0) = (initialState, [])"
    by simp
  from center_click [OF h1] t1
  have c1: "desktop_onClick ?s1 (activeIndex ?s1) (cardData ! 1) = (?s1, [''/about''])"
    by simp
  from h0 h1 c0 c1 show ?thesis by blast
qed

text \<open>
  Claim C3. On the five-card deck, \<open>goToPrev\<close> at \<open>activeIndex = 0\<close> moves to index 4,
  and \<open>handleNavigation\<close>, comparing 4 with 0, sets \<open>direction\<close> to \<open>1\<close>, the value
  that the declaration of \<open>direction\<close> documents for "next", not to \<open>-1\<close>, the value
  for "previous".
\<close>

theorem goToPrev_at_first_card:
  "goToPrev cardData \<lparr>activeIndex = Num 0, direction = 0\<rparr> = \<lparr>activeIndex = Num 4, direction = 1\<rparr>"
  by (simp add: goToPrev_def handleNavigation_def js_length_def cardData_def)

text \<open>
  Claim C5. \<open>handleNavigation\<close> sets \<open>activeIndex\<close> to the target index, and sets
  \<open>direction\<close> to \<open>1\<close> (forward) exactly when the target is greater than the
  \<open>activeIndex\<close> before the update, to \<open>-1\<close> (backward) exactly when it is less, and
  to \<open>0\<close> (none) exactly when the two are equal.
\<close>

theorem handleNavigation_direction:
  assumes "activeIndex s = Num a"
  shows "activeIndex (handleNavigation s (Num t)) = Num t
       \<and> (direction (handleNavigation s (Num t)) = 1 \<longleftrightarrow> t > a)
       \<and> (direction (handleNavigation s (Num t)) = - 1 \<longleftrightarrow> t < a)
       \<and> (direction (handleNavigation s (Num t)) = 0 \<longleftrightarrow> t = a)"
  using assms by (auto simp add: handleNavigation_def)

theorem handleNavigation_direction_witness:
  "activeIndex initialState = Num 0
 \<and> activeIndex (handleNavigation initialState (Num 2)) = Num 2
 \<and> direction (handleNavigation initialState (Num 2)) = 1"
proof -
  have h: "activeIndex initialState = Num 0" by (simp add: initialState_def)
  from handleNavigation_direction [OF h, of 2] h show ?thesis by simp
qed

text \<open>
  Claim C6. For \<open>activeIndex = i\<close> with \<open>0 \<le> i < N\<close>, \<open>prevIndex\<close> is
  \<open>(i - 1 + N) mod N\<close> and \<open>nextIndex\<close> is \<open>(i + 1) mod N\<close>. Both differ from
  \<open>activeIndex\<close> when \<open>N \<ge> 3\<close>, both equal \<open>activeIndex\<close> when \<open>N = 1\<close>, and both
  are the other index, \<open>1 - i\<close>, when \<open>N = 2\<close>.
\<close>

theorem neighbor_indices:
  assumes "activeIndex s = Num i" "0 \<le> i" "i < int (length cards)"
  shows "prevIndex cards s = Num ((i - 1 + int (length cards)) mod int (length cards))
       \<and> nextIndex cards s = Num ((i + 1) mod int (length cards))
       \<and> (3 \<le> length cards \<longrightarrow>
            prevIndex cards s \<noteq> activeIndex s \<and> nextIndex cards s \<noteq> activeIndex s)
       \<and> (length cards = 1 \<longrightarrow>
            prevIndex cards s = activeIndex s \<and> nextIndex cards s = activeIndex s)
       \<and> (length cards = 2 \<longrightarrow>
            prevIndex cards s = Num (1 - i) \<and> nextIndex cards s = Num (1 - i)
            \<and> Num (1 - i) \<noteq> activeIndex s)"
proof -
  let ?n = "int (length cards)"
  have p: "prevIndex cards s = Num (if i = 0 then ?n - 1 else i - 1)"
    using assms by (simp only: prevIndex_eq prev_mod_cases)
  have q: "nextIndex cards s = Num (if i + 1 = ?n then 0 else i + 1)"
    using assms by (simp only: nextIndex_eq next_mod_cases)
  have a: "prevIndex cards s = Num ((i - 1 + ?n) mod ?n)" using assms by (rule prevIndex_eq)
  have b: "nextIndex cards s = Num ((i + 1) mod ?n)" using assms by (rule nextIndex_eq)
  have c: "3 \<le> length cards \<longrightarrow>
      prevIndex cards s \<noteq> activeIndex s \<and> nextIndex cards s \<noteq> activeIndex s"
    using assms by (auto simp add: p q)
  have d: "length cards = 1 \<longrightarrow>
      prevIndex cards s = activeIndex s \<and> nextIndex cards s = activeIndex s"
    using assms by (auto simp add: p q)
  have e: "length cards = 2 \<longrightarrow>
      prevIndex cards s = Num (1 - i) \<and> nextIndex cards s = Num (1 - i)
      \<and> Num (1 - i) \<noteq> activeIndex s"
    using assms by (auto simp add: p q)
  from a b c d e show ?thesis by blast
qed

theorem neighbor_indices_witness:
  "prevIndex cardData \<lparr>activeIndex = Num 0, direction = 0\<rparr> = Num 4
 \<and> nextIndex cardData \<lparr>activeIndex = Num 0, direction = 0\<rparr> = Num 1
 \<and> prevIndex (take 1 cardData) \<lparr>activeIndex = Num 0, direction = 0\<rparr> = Num 0
 \<and> nextIndex (take 1 cardData) \<lparr>activeIndex = Num 0, direction = 0\<rparr> = Num 0
 \<and> prevIndex (take 2 cardData) \<lparr>activeIndex = Num 1, direction = 0\<rparr> = Num 0
 \<and> nextIndex (take 2 cardData) \<lparr>activeIndex = Num 1, direction = 0\<rparr> = Num 0"
proof -
  let ?s0 = "\<lparr>activeIndex = Num 0, direction = 0\<rparr>"
  let ?s1 = "\<lparr>activeIndex = Num 1, direction = 0\<rparr>"
  have l: "length cardData = 5" by (simp add: cardData_def)
  have a0: "activeIndex ?s0 = Num 0" and a1: "activeIndex ?s1 = Num 1" by simp_all
  have "prevIndex cardData ?s0 = Num 4 \<and> nextIndex cardData ?s0 = Num 1"
    using neighbor_indices [OF a0, of cardData] by (simp add: l)
  moreover have "prevIndex (take 1 cardData) ?s0 = Num 0 \<and> nextIndex (take 1 cardData) ?s0 = Num 0"
    using neighbor_indices [OF a0, of "take 1 cardData"] by (simp add: l)
  moreover have "prevIndex (take 2 cardData) ?s1 = Num 0 \<and> nextIndex (take 2 cardData) ?s1 = Num 0"
    using neighbor_indices [OF a1, of "take 2 cardData"] by (simp add: l)
  ultimately show ?thesis by blast
qed

text \<open>
  Claim C7. From every state whose \<open>activeIndex\<close> indexes the deck, \<open>goToNext\<close>
  followed by \<open>goToPrev\<close>, and \<open>goToPrev\<close> followed by \<open>goToNext\<close>, give back the
  original \<open>activeIndex\<close>. Nothing is said of \<open>direction\<close>.
\<close>

theorem advance_retreat_inverse:
  assumes "valid_index cards (activeIndex s)"
  shows "activeIndex (goToPrev cards (goToNext cards s)) = activeIndex s
       \<and> activeIndex (goToNext cards (goToPrev cards s)) = activeIndex s"
proof -
  from assms obtain i where i: "activeIndex s = Num i" "0 \<le> i" "i < int (length cards)"
    by (rule valid_indexE)
  let ?n = "int (length cards)"
  from i have n: "0 < ?n" by linarith
  have nx: "nextIndex cards s = Num ((i + 1) mod ?n)" using i by (rule nextIndex_eq)
  have pv: "prevIndex cards s = Num ((i - 1 + ?n) mod ?n)" using i by (rule prevIndex_eq)
  have a: "((i + 1) mod ?n - 1 + ?n) mod ?n = i"
  proof (cases "i + 1 = ?n")
    case True
    then have "(i + 1) mod ?n = 0" by simp
    then have "((i + 1) mod ?n - 1 + ?n) mod ?n = (?n - 1) mod ?n" by simp
    also have "\<dots> = ?n - 1" using n by (intro mod_pos_pos_trivial) linarith+
    finally show ?thesis using True by simp
  next
    case False
    with i have "(i + 1) mod ?n = i + 1" by simp
    then show ?thesis using i by simp
  qed
  have b: "((i - 1 + ?n) mod ?n + 1) mod ?n = i"
  proof (cases "i = 0")
    case True
    have "(?n - 1) mod ?n = ?n - 1" using n by (intro mod_pos_pos_trivial) linarith+
    with True have "(i - 1 + ?n) mod ?n = ?n - 1" by simp
    then show ?thesis using True by simp
  next
    case False
    with i have "(i - 1 + ?n) mod ?n = i - 1" by simp
    then show ?thesis using i by simp
  qed
  have "activeIndex (goToPrev cards (goToNext cards s))
      = prevIndex cards (handleNavigation s (nextIndex cards s))"
    by (simp add: goToPrev_eq goToNext_eq activeIndex_handleNavigation)
  also have "\<dots> = Num (((i + 1) mod ?n - 1 + ?n) mod ?n)"
    using n by (intro prevIndex_eq) (simp_all add: activeIndex_handleNavigation nx)
  finally have 1: "activeIndex (goToPrev cards (goToNext cards s)) = activeIndex s"
    using a i by simp
  have "activeIndex (goToNext cards (goToPrev cards s))
      = nextIndex cards (handleNavigation s (prevIndex cards s))"
    by (simp add: goToPrev_eq goToNext_eq activeIndex_handleNavigation)
  also have "\<dots> = Num (((i - 1 + ?n) mod ?n + 1) mod ?n)"
    using n by (intro nextIndex_eq) (simp_all add: activeIndex_handleNavigation pv)
  finally have 2: "activeIndex (goToNext cards (goToPrev cards s)) = activeIndex s"
    using b i by simp
  from 1 2 show ?thesis by simp
qed

theorem advance_retreat_inverse_witness:
  "valid_index cardData (activeIndex initialState)
 \<and> activeIndex (goToPrev cardData (goToNext cardData initialState)) = Num 0
 \<and> activeIndex (goToNext cardData (goToPrev cardData initialState)) = Num 0"
proof -
  have h: "valid_index cardData (activeIndex initialState)"
    by (simp add: initialState_def cardData_def)
  have z: "activeIndex initialState = Num 0" by (simp add: initialState_def)
  from advance_retreat_inverse [OF h] h z show ?thesis by simp
qed

text \<open>The round trip does change \<open>direction\<close>: from the initial state it ends at \<open>-1\<close>.\<close>

lemma direction_not_restored:
  "direction (goToPrev cardData (goToNext cardData initialState)) = - 1
 \<and> direction initialState = 0"
  by (simp add: goToPrev_def goToNext_def handleNavigation_def js_length_def cardData_def
      initialState_def)

section \<open>Properties of the rendering\<close>



lemma map_of_mobile_cards:
  assumes "k < length cards"
  shows "map_of (mobile_cards cards) (Num (int k)) = Some (cards ! k)"
proof -
  let ?ks = "map (\<lambda>n. Num (int n)) [0..<length cards]"
  have d: "distinct ?ks" by (simp add: distinct_map inj_on_def)
  have l: "length ?ks = length cards" by simp
  from l d assms have "map_of (zip ?ks cards) (?ks ! k) = Some (cards ! k)"
    by (rule map_of_zip_nth)
  with assms show ?thesis by (simp add: mobile_cards_def)
qed

text \<open>
  Claim C4, as stated, fails. On the mobile strip a tap on the item with index 1,
  while \<open>activeIndex\<close> is 0, calls \<open>navigate\<close> with \<open>/about\<close> and leaves the state as
  it is; the desktop handler for the same index and card, and \<open>handleNavigation\<close>,
  move \<open>activeIndex\<close> to 1 and do not navigate.
\<close>

theorem mobile_tap_is_not_activate:
  "mobile_tap cardData initialState (Num 1) = Some (initialState, [''/about''])
 \<and> mobile_tap cardData initialState (Num 1)
      \<noteq> Some (desktop_onClick initialState (Num 1) (cardData ! 1))
 \<and> mobile_tap cardData initialState (Num 1) \<noteq> Some (handleNavigation initialState (Num 1), [])"
  by (simp add: mobile_tap_def mobile_cards_def mobile_onClick_def cardData_def initialState_def
      desktop_onClick_def handleNavigation_def upt_rec)

text \<open>
  Claim C4, amended. On the mobile strip a tap on the item with index \<open>k\<close> calls
  \<open>navigate\<close> exactly once, with the link of that item, whatever \<open>activeIndex\<close> is and
  also for the profile item, and changes neither \<open>activeIndex\<close> nor \<open>direction\<close>.
\<close>

theorem mobile_tap_navigates:
  assumes "k < length cards"
  shows "mobile_tap cards s (Num (int k)) = Some (s, [link (cards ! k)])"
  using assms by (simp add: mobile_tap_def map_of_mobile_cards mobile_onClick_def)

theorem mobile_tap_navigates_witness:
  "0 < length cardData \<and> mobile_tap cardData initialState (Num (int 0)) = Some (initialState, [''/''])"
proof -
  have h: "0 < length cardData" by (simp add: cardData_def)
  from mobile_tap_navigates [OF h, of initialState] h show ?thesis by (simp add: cardData_def)
qed









section \<open>Properties of the contact form\<close>

text \<open>
  Claim C9. Whatever the fields hold at the submit event and whatever is typed while
  the timer runs, when \<open>handleSubmit\<close> has finished the three fields \<open>name\<close>, \<open>email\<close>
  and \<open>message\<close> are the empty string and \<open>isSubmitting\<close> is false; the calls made are
  \<open>preventDefault\<close>, the timer of 1000 ms, one \<open>console.log\<close> and exactly one
  \<open>toast.success\<close>, which closes by itself after 3000 ms. No call sends anything to a
  server.
\<close>

theorem contact_form_submit:
  "fst (handleSubmit st edits) = \<lparr>formData = emptyFormData, isSubmitting = False\<rparr>
 \<and> formData (fst (handleSubmit st edits)) ''name'' = Some ''''
 \<and> formData (fst (handleSubmit st edits)) ''email'' = Some ''''
 \<and> formData (fst (handleSubmit st edits)) ''message'' = Some ''''
 \<and> snd (handleSubmit st edits) =
      [PreventDefault, SetTimeout 1000, ConsoleLog ''Form Data Submitted:'' (formData st),
       ToastSuccess ''Message sent successfully!'' successOptions]
 \<and> filter is_toast (snd (handleSubmit st edits)) =
      [ToastSuccess ''Message sent successfully!'' successOptions]
 \<and> autoClose successOptions = 3000"
proof -
  have s: "fst (handleSubmit st edits) = \<lparr>formData = emptyFormData, isSubmitting = False\<rparr>"
    by (simp add: handleSubmit_def handleSubmit_begin_def handleSubmit_resume_def)
  have e: "snd (handleSubmit st edits) =
      [PreventDefault, SetTimeout 1000, ConsoleLog ''Form Data Submitted:'' (formData st),
       ToastSuccess ''Message sent successfully!'' successOptions]"
    by (simp add: handleSubmit_def handleSubmit_begin_def handleSubmit_resume_def)
  have f: "emptyFormData ''name'' = Some ''''" "emptyFormData ''email'' = Some ''''"
      "emptyFormData ''message'' = Some ''''"
    by (simp_all add: emptyFormData_def)
  have a: "autoClose successOptions = 3000" by (simp add: successOptions_def)
  from s e f a show ?thesis by simp
qed

text \<open>While the timer runs, submission is disabled.\<close>

lemma handleChanges_isSubmitting: "isSubmitting (handleChanges st es) = isSubmitting st"
  by (induction st es rule: handleChanges.induct) (simp_all add: handleChange_def)

lemma submitting_while_waiting:
  "isSubmitting (handleChanges (fst (handleSubmit_begin st)) es)"
  by (simp add: handleChanges_isSubmitting handleSubmit_begin_def)

section \<open>Properties of the custom cursor\<close>

lemma listeners_add:
  "listeners (addEventListener t ty cb d) =
     (if (t, ty, cb) \<in> set (listeners d) then listeners d else listeners d @ [(t, ty, cb)])"
  by (simp add: addEventListener_def)

lemma listeners_remove:
  "listeners (removeEventListener t ty cb d) = removeAll (t, ty, cb) (listeners d)"
  by (simp add: removeEventListener_def)

lemma frame_add:
  "body_style_cursor (addEventListener t ty cb d) = body_style_cursor d"
  "dom.more (addEventListener t ty cb d) = dom.more d"
  by (simp_all add: addEventListener_def)

lemma frame_remove:
  "body_style_cursor (removeEventListener t ty cb d) = body_style_cursor d"
  "dom.more (removeEventListener t ty cb d) = dom.more d"
  by (simp_all add: removeEventListener_def)

lemma listeners_cleanup:
  "listeners (useEffect_cleanup run d) = filter (\<lambda>l. l \<notin> set (own_listeners run)) (listeners d)"
  by (simp add: useEffect_cleanup_def Let_def listeners_remove own_listeners_def
      removeAll_filter_not_eq)
    (rule filter_cong, auto)

lemma listeners_mount_fresh:
  assumes "set (listeners d) \<inter> set (own_listeners run) = {}"
  shows "listeners (useEffect_mount run d) = listeners d @ own_listeners run"
  using assms by (simp add: useEffect_mount_def Let_def listeners_add own_listeners_def)

lemma listeners_mount_set:
  "set (listeners (useEffect_mount run d)) = set (listeners d) \<union> set (own_listeners run)"
  by (auto simp add: useEffect_mount_def Let_def listeners_add own_listeners_def)

lemma listeners_mount_others:
  "filter (\<lambda>l. l \<notin> set (own_listeners run)) (listeners (useEffect_mount run d))
     = filter (\<lambda>l. l \<notin> set (own_listeners run)) (listeners d)"
  by (simp add: useEffect_mount_def Let_def listeners_add own_listeners_def)

text \<open>
  Claim C10. The effect of \<open>CustomCursor\<close> sets \<open>document.body.style.cursor\<close> to
  \<open>none\<close> and registers its three listeners; its cleanup, run on any later document,
  sets the cursor to \<open>auto\<close> and removes exactly its own listeners. Neither touches the
  listeners of anyone else or the rest of the document, and when the callbacks are
  fresh, as closures of one run are, mount followed by cleanup gives back the list of
  listeners it started from.
\<close>

theorem cursor_effect_scoped:
  "body_style_cursor (useEffect_mount run d) = ''none''
 \<and> body_style_cursor (useEffect_cleanup run d') = ''auto''
 \<and> set (own_listeners run) \<subseteq> set (listeners (useEffect_mount run d))
 \<and> filter (\<lambda>l. l \<notin> set (own_listeners run)) (listeners (useEffect_mount run d))
      = filter (\<lambda>l. l \<notin> set (own_listeners run)) (listeners d)
 \<and> listeners (useEffect_cleanup run d') = filter (\<lambda>l. l \<notin> set (own_listeners run)) (listeners d')
 \<and> dom.more (useEffect_mount run d) = dom.more d
 \<and> dom.more (useEffect_cleanup run d') = dom.more d'
 \<and> (set (listeners d) \<inter> set (own_listeners run) = {} \<longrightarrow>
       listeners (useEffect_cleanup run (useEffect_mount run d)) = listeners d)"
proof -
  have 1: "body_style_cursor (useEffect_mount run d) = ''none''"
    by (simp add: useEffect_mount_def Let_def)
  have 2: "body_style_cursor (useEffect_cleanup run d') = ''auto''"
    by (simp add: useEffect_cleanup_def Let_def)
  have 3: "set (own_listeners run) \<subseteq> set (listeners (useEffect_mount run d))"
    by (simp add: listeners_mount_set)
  have 4: "dom.more (useEffect_mount run d) = dom.more d"
    by (simp add: useEffect_mount_def Let_def frame_add)
  have 5: "dom.more (useEffect_cleanup run d') = dom.more d'"
    by (simp add: useEffect_cleanup_def Let_def frame_remove)
  have 6: "listeners (useEffect_cleanup run (useEffect_mount run d)) = listeners d"
    if fresh: "set (listeners d) \<inter> set (own_listeners run) = {}"
  proof -
    have "filter (\<lambda>l. l \<notin> set (own_listeners run)) (listeners d) = listeners d"
      using fresh by (intro filter_True) auto
    moreover have "filter (\<lambda>l. l \<notin> set (own_listeners run)) (own_listeners run) = []"
      by (simp add: filter_empty_conv)
    ultimately show ?thesis
      by (simp add: listeners_cleanup listeners_mount_fresh [OF fresh])
  qed
  from 1 2 3 4 5 6 listeners_cleanup listeners_mount_others show ?thesis by blast
qed

theorem cursor_effect_scoped_witness:
  "set (listeners \<lparr>listeners = [(Document, ''click'', 7, handleMouseMove)],
                   body_style_cursor = ''pointer''\<rparr>)
      \<inter> set (own_listeners 0) = {}
 \<and> listeners (useEffect_cleanup 0 (useEffect_mount 0
      \<lparr>listeners = [(Document, ''click'', 7, handleMouseMove)], body_style_cursor = ''pointer''\<rparr>))
    = [(Document, ''click'', 7, handleMouseMove)]
 \<and> body_style_cursor (useEffect_cleanup 0 (useEffect_mount 0
      \<lparr>listeners = [(Document, ''click'', 7, handleMouseMove)], body_style_cursor = ''pointer''\<rparr>))
    = ''auto''"
proof -
  let ?d = "\<lparr>listeners = [(Document, ''click'', 7, handleMouseMove)],
             body_style_cursor = ''pointer''\<rparr>"
  have h: "set (listeners ?d) \<inter> set (own_listeners 0) = {}"
    by (simp add: own_listeners_def)
  note t = cursor_effect_scoped [of 0 ?d "useEffect_mount 0 ?d"]
  from t have c: "body_style_cursor (useEffect_cleanup 0 (useEffect_mount 0 ?d)) = ''auto''"
    by blast
  from t h have "listeners (useEffect_cleanup 0 (useEffect_mount 0 ?d)) = listeners ?d"
    by blast
  then have l: "listeners (useEffect_cleanup 0 (useEffect_mount 0 ?d))
      = [(Document, ''click'', 7, handleMouseMove)]"
    by simp
  from h c l show ?thesis by blast
qed

end
